theory Spec2Isabelle
  imports Complex_Main
begin

section \<open>ECMAScript numbers\<close>

text \<open>
  Every number of the library (\<^verbatim>\<open>amount: number\<close>, the products and quotients in
  \<^verbatim>\<open>Money.parse\<close> and \<^verbatim>\<open>convertAmountToDecimal\<close>) is an ECMAScript Number, an IEEE-754
  binary64 value. A finite value is kept as the rational it denotes; the results of the
  arithmetic operators are rounded to the nearest binary64 value, ties to even, by
  \<open>round64\<close>. The two zeros are identified: no operation used by the library
  (comparison, subtraction, \<^verbatim>\<open>toFixed\<close>, division by a non-negative power) tells them
  apart.
\<close>

datatype jsnum = NaN | PInf | NInf | Fin rat

text \<open>The number of binary digits of a positive integer.\<close>

fun bits :: "int \<Rightarrow> nat" where
  "bits n = (if n \<le> 0 then 0 else Suc (bits (n div 2)))"

declare bits.simps [simp del]

text \<open>\<open>ilog2 x\<close> is the binary exponent of a positive rational: \<open>2 powi ilog2 x \<le> x < 2 powi (ilog2 x + 1)\<close>.\<close>

definition ilog2 :: "rat \<Rightarrow> int" where
  "ilog2 x = (if 1 \<le> x then int (bits \<lfloor>x\<rfloor>) - 1
              else - int (bits (\<lceil>1 / x\<rceil> - 1)))"

definition round_half_even :: "rat \<Rightarrow> int" where
  "round_half_even x =
     (let f = \<lfloor>x\<rfloor>; d = x - of_int f
      in if d < 1 / 2 then f else if 1 / 2 < d then f + 1
         else if even f then f else f + 1)"

text \<open>
  Rounding to binary64: 53 significant bits, exponents from \<open>-1022\<close> (below which the
  spacing stays \<open>2 powi -1074\<close>, the subnormal numbers) to \<open>1023\<close> (above which the result
  is infinite). \<open>quantum x\<close> is the spacing of the binary64 values around \<open>x\<close>.
\<close>

definition expo :: "rat \<Rightarrow> int" where
  "expo x = max (ilog2 \<bar>x\<bar>) (- 1022)"

definition quantum :: "rat \<Rightarrow> rat" where
  "quantum x = 2 powi (expo x - 52)"

definition round64 :: "rat \<Rightarrow> jsnum" where
  "round64 x =
     (if x = 0 then Fin 0
      else let m = round_half_even (\<bar>x\<bar> / quantum x);
               y = of_int m * quantum x
           in if 2 powi 1024 \<le> y then (if 0 < x then PInf else NInf)
              else Fin (sgn x * y))"

text \<open>A rational that is a binary64 value: rounding leaves it as it is.\<close>

definition is_binary64 :: "rat \<Rightarrow> bool" where
  "is_binary64 x = (round64 x = Fin x)"

text \<open>The relational operators \<^verbatim>\<open><\<close>, \<^verbatim>\<open>>\<close> and \<^verbatim>\<open>===\<close> on numbers: every comparison with NaN is false.\<close>

fun js_lt :: "jsnum \<Rightarrow> jsnum \<Rightarrow> bool" where
  "js_lt (Fin a) (Fin b) = (a < b)"
| "js_lt (Fin a) PInf = True"
| "js_lt NInf (Fin b) = True"
| "js_lt NInf PInf = True"
| "js_lt _ _ = False"

definition js_gt :: "jsnum \<Rightarrow> jsnum \<Rightarrow> bool" where
  "js_gt a b = js_lt b a"

fun js_eq :: "jsnum \<Rightarrow> jsnum \<Rightarrow> bool" where
  "js_eq NaN _ = False"
| "js_eq _ NaN = False"
| "js_eq a b = (a = b)"

fun isNaN :: "jsnum \<Rightarrow> bool" where
  "isNaN NaN = True"
| "isNaN _ = False"

text \<open>The operators \<^verbatim>\<open>-\<close>, \<^verbatim>\<open>*\<close> and \<^verbatim>\<open>/\<close> of Number.\<close>

fun js_sub :: "jsnum \<Rightarrow> jsnum \<Rightarrow> jsnum" where
  "js_sub (Fin a) (Fin b) = round64 (a - b)"
| "js_sub NaN _ = NaN"
| "js_sub _ NaN = NaN"
| "js_sub PInf PInf = NaN"
| "js_sub NInf NInf = NaN"
| "js_sub PInf _ = PInf"
| "js_sub NInf _ = NInf"
| "js_sub (Fin a) PInf = NInf"
| "js_sub (Fin a) NInf = PInf"

text \<open>An infinity with the sign of a non-zero rational.\<close>

definition signed_inf :: "rat \<Rightarrow> jsnum" where
  "signed_inf s = (if 0 < s then PInf else NInf)"

fun js_mul :: "jsnum \<Rightarrow> jsnum \<Rightarrow> jsnum" where
  "js_mul (Fin a) (Fin b) = round64 (a * b)"
| "js_mul NaN _ = NaN"
| "js_mul _ NaN = NaN"
| "js_mul PInf (Fin b) = (if b = 0 then NaN else signed_inf b)"
| "js_mul NInf (Fin b) = (if b = 0 then NaN else signed_inf (- b))"
| "js_mul (Fin a) PInf = (if a = 0 then NaN else signed_inf a)"
| "js_mul (Fin a) NInf = (if a = 0 then NaN else signed_inf (- a))"
| "js_mul PInf PInf = PInf"
| "js_mul NInf NInf = PInf"
| "js_mul PInf NInf = NInf"
| "js_mul NInf PInf = NInf"

text \<open>
  Division. The only divisor in the library is \<^verbatim>\<open>base ** exponent\<close> with a non-negative
  base, so a zero divisor is the positive zero.
\<close>

fun js_div :: "jsnum \<Rightarrow> jsnum \<Rightarrow> jsnum" where
  "js_div (Fin a) (Fin b) =
     (if b = 0 then (if a = 0 then NaN else signed_inf a) else round64 (a / b))"
| "js_div NaN _ = NaN"
| "js_div _ NaN = NaN"
| "js_div (Fin a) PInf = Fin 0"
| "js_div (Fin a) NInf = Fin 0"
| "js_div PInf (Fin b) = (if b < 0 then NInf else PInf)"
| "js_div NInf (Fin b) = (if b < 0 then PInf else NInf)"
| "js_div _ _ = NaN"

text \<open>
  \<^verbatim>\<open>base ** exponent\<close>. An operand is a non-negative integer of the currency metadata, or
  \<^verbatim>\<open>undefined\<close> (\<open>None\<close>) when the object read has no such property; \<^verbatim>\<open>undefined\<close> is
  converted to NaN. An exponent NaN gives NaN, an exponent 0 gives 1 whatever the base,
  a base NaN gives NaN otherwise; for two integers the result is the binary64 value nearest
  to the power (the power itself whenever it is a binary64 value, as \<open>10 ^ e\<close> is up to
  \<open>e = 22\<close>).
\<close>

definition js_pow :: "nat option \<Rightarrow> nat option \<Rightarrow> jsnum" where
  "js_pow b e =
     (case e of
        None \<Rightarrow> NaN
      | Some n \<Rightarrow>
          if n = 0 then Fin 1
          else (case b of None \<Rightarrow> NaN | Some m \<Rightarrow> round64 (of_nat (m ^ n))))"

text \<open>\<^verbatim>\<open>Math.trunc\<close>: the integral part, rounding towards zero.\<close>

fun Math_trunc :: "jsnum \<Rightarrow> jsnum" where
  "Math_trunc (Fin a) = Fin (if 0 \<le> a then of_int \<lfloor>a\<rfloor> else of_int \<lceil>a\<rceil>)"
| "Math_trunc x = x"

definition MAX_SAFE_INTEGER :: jsnum where
  "MAX_SAFE_INTEGER = Fin (2 ^ 53 - 1)"

definition MIN_SAFE_INTEGER :: jsnum where
  "MIN_SAFE_INTEGER = Fin (- (2 ^ 53 - 1))"

section \<open>ECMAScript strings\<close>

text \<open>
  A string is the list of its code units; the model has the code units below 256.
  \<^verbatim>\<open>String.prototype.split\<close> with a one-character separator cuts at every
  occurrence of the separator and always returns at least one piece.
\<close>

function split :: "char \<Rightarrow> string \<Rightarrow> string list" where
  "split sep s =
     (case dropWhile (\<lambda>x. x \<noteq> sep) s of
        [] \<Rightarrow> [s]
      | _ # r \<Rightarrow> takeWhile (\<lambda>x. x \<noteq> sep) s # split sep r)"
  by pat_completeness auto
termination
proof (relation "measure (\<lambda>(sep, s). length s)")
  fix sep :: char and s :: string and x r
  assume "dropWhile (\<lambda>x. x \<noteq> sep) s = x # r"
  then have "length s = length (takeWhile (\<lambda>x. x \<noteq> sep) s) + Suc (length r)"
    by (metis length_Cons length_append takeWhile_dropWhile_id)
  then show "((sep, r), (sep, s)) \<in> measure (\<lambda>(sep, s). length s)"
    by simp
qed simp

declare split.simps [simp del]

text \<open>
  An array element read by destructuring and then used as a string: a missing element
  is \<^verbatim>\<open>undefined\<close>, which both consumers in the library (\<^verbatim>\<open>parseFloat\<close> and the property
  lookup and template literal of \<^verbatim>\<open>Currency.parse\<close>) convert to the string
  \<^verbatim>\<open>"undefined"\<close>.
\<close>

definition element_string :: "string list \<Rightarrow> nat \<Rightarrow> string" where
  "element_string xs i = (if i < length xs then xs ! i else ''undefined'')"

definition is_digit :: "char \<Rightarrow> bool" where
  "is_digit ch = (ch \<in> set ''0123456789'')"

definition digit_val :: "char \<Rightarrow> nat" where
  "digit_val ch = of_char ch - 48"

definition digits_val :: "string \<Rightarrow> nat" where
  "digits_val ds = foldl (\<lambda>n ch. 10 * n + digit_val ch) 0 ds"

text \<open>White space and line terminators below 256: TAB, LF, VT, FF, CR, SP, NBSP.\<close>

definition is_white :: "char \<Rightarrow> bool" where
  "is_white ch = (of_char ch \<in> {9, 10, 11, 12, 13, 32, 160 :: nat})"

text \<open>An optional sign: whether it is a minus, and the rest.\<close>

fun take_sign :: "string \<Rightarrow> bool \<times> string" where
  "take_sign [] = (False, [])"
| "take_sign (ch # r) =
     (if ch = CHR ''-'' then (True, r) else if ch = CHR ''+'' then (False, r)
      else (False, ch # r))"

text \<open>The value of an exponent part at the head of a string, 0 when there is none.\<close>

fun exponent_part :: "string \<Rightarrow> int" where
  "exponent_part [] = 0"
| "exponent_part (ch # r) =
     (if ch = CHR ''e'' \<or> ch = CHR ''E'' then
        (case take_sign r of (neg, u) \<Rightarrow>
           let ds = takeWhile is_digit u
           in if ds = [] then 0
              else if neg then - int (digits_val ds) else int (digits_val ds))
      else 0)"

text \<open>A fraction part at the head of a string: its digits, and what follows them.\<close>

fun fraction_part :: "string \<Rightarrow> string \<times> string" where
  "fraction_part [] = ([], [])"
| "fraction_part (ch # r) =
     (if ch = CHR ''.'' then (takeWhile is_digit r, dropWhile is_digit r)
      else ([], ch # r))"

text \<open>
  \<^verbatim>\<open>parseFloat\<close>: leading white space is dropped, the longest prefix that is a
  \<^verbatim>\<open>StrDecimalLiteral\<close> is read (a sign, then \<^verbatim>\<open>Infinity\<close> or digits with an optional
  fraction and exponent), and its value is rounded to binary64; NaN when there is no
  such prefix.
\<close>

definition parseFloat :: "string \<Rightarrow> jsnum" where
  "parseFloat s =
     (case take_sign (dropWhile is_white s) of (neg, u) \<Rightarrow>
        if take 8 u = ''Infinity'' then (if neg then NInf else PInf)
        else
          let ip = takeWhile is_digit u
          in case fraction_part (dropWhile is_digit u) of (fp, r) \<Rightarrow>
               if ip = [] \<and> fp = [] then NaN
               else
                 let mv = of_nat (digits_val (ip @ fp))
                            * 10 powi (exponent_part r - int (length fp))
                 in round64 (if neg then - mv else mv))"

text \<open>The decimal digits of a natural number.\<close>

fun digits :: "nat \<Rightarrow> string" where
  "digits n = (if n < 10 then [''0123456789'' ! n]
               else digits (n div 10) @ [''0123456789'' ! (n mod 10)])"

declare digits.simps [simp del]

section \<open>Errors\<close>

text \<open>
  The exceptions of the library, each with its message, and two failures of the host:
  the \<^verbatim>\<open>RangeError\<close> of \<^verbatim>\<open>toFixed\<close>, and the case of \<^verbatim>\<open>toFixed\<close> that is left out of
  the model (a value of magnitude \<open>10 ^ 21\<close> or more, printed in exponential notation).
\<close>

datatype js_error =
    InvalidCurrencyException string
  | MoneyException string
  | MoneyParseException string
  | RangeError
  | Exponential_notation

definition new_InvalidCurrencyException :: "string \<Rightarrow> js_error" where
  "new_InvalidCurrencyException code =
     InvalidCurrencyException (''Invalid currency: '' @ [CHR 0x27] @ code @ [CHR 0x27])"

definition new_MoneyParseException :: "string \<Rightarrow> js_error" where
  "new_MoneyParseException text = MoneyParseException (''Impossible to parse money: '' @ text)"

text \<open>
  The conversions of a property that may be \<^verbatim>\<open>undefined\<close>: in a template literal it reads
  \<^verbatim>\<open>undefined\<close>, as the argument of \<^verbatim>\<open>toFixed\<close> it counts as 0.
\<close>

definition template_string :: "string option \<Rightarrow> string" where
  "template_string v = (case v of None \<Rightarrow> ''undefined'' | Some s \<Rightarrow> s)"

definition fraction_digits :: "nat option \<Rightarrow> nat" where
  "fraction_digits v = (case v of None \<Rightarrow> 0 | Some f \<Rightarrow> f)"

text \<open>
  \<^verbatim>\<open>Number.prototype.toFixed\<close>: the integer \<open>n\<close> nearest to \<open>x * 10 ^ f\<close> (the larger
  of two), written with \<open>f\<close> digits after the point.
\<close>

definition toFixed :: "jsnum \<Rightarrow> nat \<Rightarrow> js_error + string" where
  "toFixed x f =
     (if 100 < f then Inl RangeError
      else case x of
        NaN \<Rightarrow> Inr ''NaN''
      | PInf \<Rightarrow> Inr ''Infinity''
      | NInf \<Rightarrow> Inr ''-Infinity''
      | Fin r \<Rightarrow>
          if 10 ^ 21 \<le> \<bar>r\<bar> then Inl Exponential_notation
          else
            let s = (if r < 0 then ''-'' else '''');
                n = nat \<lfloor>\<bar>r\<bar> * 10 ^ f + 1 / 2\<rfloor>;
                m = (if n = 0 then ''0'' else digits n);
                m = (if f \<noteq> 0 then
                       let m = (if length m \<le> f then replicate (f + 1 - length m) CHR ''0'' @ m else m);
                           k = length m
                       in take (k - f) m @ ''.'' @ drop (k - f) m
                     else m)
            in Inr (s @ m))"

section \<open>Currency\<close>

text \<open>
  Modelled from the spec: the currency-metadata table (the package
  \<^verbatim>\<open>@dinero.js/currencies\<close>) is not part of the repository. A currency entry has a code, a
  base (a positive integer, normally 10) and an exponent (a non-negative integer).

  \<^verbatim>\<open>Currency.parse\<close> reads the property named by the code from the imported module object
  and rejects the code only when the value read is falsy. The object has members that
  are no currency entries (those that every object has from \<^verbatim>\<open>Object.prototype\<close>, such as
  \<^verbatim>\<open>constructor\<close>), and the value read is wrapped as it is. So the type of the wrapped
  value has the three properties the class reads, each of them present or \<^verbatim>\<open>undefined\<close>
  (\<open>None\<close>): a currency entry has all three, a member that is no currency has none. The
  object is a parameter of \<open>Currency_parse\<close>: the value it gives for a name, \<open>None\<close> when
  the value read is falsy (a missing property reads as \<^verbatim>\<open>undefined\<close>), the case of
  \<^verbatim>\<open>if (!c)\<close>.
\<close>

record DineroCurrency =
  code :: "string option"
  base :: "nat option"
  exponent :: "nat option"

type_synonym currencies = "string \<rightharpoonup> DineroCurrency"

text \<open>The class \<^verbatim>\<open>Currency\<close> wraps the value read (its private field \<^verbatim>\<open>c\<close>).\<close>

datatype Currency = Currency (entry: DineroCurrency)

definition Currency_code :: "Currency \<Rightarrow> string option" where
  "Currency_code cur = code (entry cur)"

definition Currency_exponent :: "Currency \<Rightarrow> nat option" where
  "Currency_exponent cur = exponent (entry cur)"

definition Currency_base :: "Currency \<Rightarrow> nat option" where
  "Currency_base cur = base (entry cur)"

definition Currency_equals :: "Currency \<Rightarrow> Currency \<Rightarrow> bool" where
  "Currency_equals cur other = (Currency_code cur = Currency_code other)"

definition Currency_toString :: "Currency \<Rightarrow> string option" where
  "Currency_toString cur = Currency_code cur"

definition Currency_parse :: "currencies \<Rightarrow> string \<Rightarrow> js_error + Currency" where
  "Currency_parse table cd =
     (case table cd of
        None \<Rightarrow> Inl (new_InvalidCurrencyException cd)
      | Some c \<Rightarrow> Inr (Currency c))"

section \<open>Money\<close>

record Money =
  amount :: jsnum
  currency :: Currency

definition new_Money :: "jsnum \<Rightarrow> Currency \<Rightarrow> js_error + Money" where
  "new_Money amt cur =
     (if js_gt amt MAX_SAFE_INTEGER \<or> js_lt amt MIN_SAFE_INTEGER
      then Inl (MoneyException ''Unsafe integer amount!'')
      else Inr \<lparr>amount = amt, currency = cur\<rparr>)"

definition hasSameCurrency :: "Money \<Rightarrow> Money \<Rightarrow> bool" where
  "hasSameCurrency this other = Currency_equals (currency this) (currency other)"

definition compareTo :: "Money \<Rightarrow> Money \<Rightarrow> js_error + jsnum" where
  "compareTo this other =
     (if \<not> hasSameCurrency this other
      then Inl (MoneyException ''Impossible to compare monetary values with different currencies.'')
      else Inr (js_sub (amount this) (amount other)))"



definition equals :: "Money \<Rightarrow> Money \<Rightarrow> js_error + bool" where
  "equals this other =
     (case compareTo this other of Inl e \<Rightarrow> Inl e | Inr d \<Rightarrow> Inr (js_eq d (Fin 0)))"

definition convertAmountToDecimal :: "Money \<Rightarrow> jsnum" where
  "convertAmountToDecimal this =
     js_div (amount this)
       (js_pow (Currency_base (currency this)) (Currency_exponent (currency this)))"

definition toString :: "Money \<Rightarrow> js_error + string" where
  "toString this =
     (let amountInDecimal = convertAmountToDecimal this
      in case toFixed amountInDecimal (fraction_digits (Currency_exponent (currency this))) of
           Inl e \<Rightarrow> Inl e
         | Inr amountWithDecimalPlaces \<Rightarrow>
             Inr (amountWithDecimalPlaces @ '' '' @ template_string (Currency_code (currency this))))"

text \<open>
  The two names bound by \<^verbatim>\<open>const [amountStr, currencyStr] = text.split(' ')\<close>: the first
  and second piece of the text.
\<close>

definition amountStr :: "string \<Rightarrow> string" where
  "amountStr text = element_string (split CHR '' '' text) 0"

definition currencyStr :: "string \<Rightarrow> string" where
  "currencyStr text = element_string (split CHR '' '' text) 1"

definition parse :: "currencies \<Rightarrow> string \<Rightarrow> js_error + Money" where
  "parse table text =
     (case Currency_parse table (currencyStr text) of
        Inl e \<Rightarrow> Inl e
      | Inr cur \<Rightarrow>
          let amt = js_mul (parseFloat (amountStr text))
                      (js_pow (Currency_base cur) (Currency_exponent cur))
          in if isNaN amt then Inl (new_MoneyParseException text)
             else new_Money (Math_trunc amt) cur)"

text \<open>
  Modelled from the spec: some entries of the metadata table (ISO 4217), for concrete
  runs. EUR and USD have base 10 and exponent 2, as the tests of the repository need
  (1025 of EUR prints as \<^verbatim>\<open>10.25 EUR\<close>, 12345 of USD as \<^verbatim>\<open>123.45 USD\<close>).
\<close>

definition EUR :: DineroCurrency where
  "EUR = \<lparr>code = Some ''EUR'', base = Some 10, exponent = Some 2\<rparr>"

definition USD :: DineroCurrency where
  "USD = \<lparr>code = Some ''USD'', base = Some 10, exponent = Some 2\<rparr>"

definition JPY :: DineroCurrency where
  "JPY = \<lparr>code = Some ''JPY'', base = Some 10, exponent = Some 0\<rparr>"

text \<open>
  Modelled from the spec: a member of the module object that is no currency entry. It has
  no property \<^verbatim>\<open>code\<close>, \<^verbatim>\<open>base\<close> or \<^verbatim>\<open>exponent\<close>.
\<close>

definition not_a_currency :: DineroCurrency where
  "not_a_currency = \<lparr>code = None, base = None, exponent = None\<rparr>"

text \<open>
  Modelled from the spec: a module object for concrete runs, with the three entries above.
  It also has what the language gives such an object, the members \<^verbatim>\<open>constructor\<close>
  and \<^verbatim>\<open>__proto__\<close> (of every object that inherits from \<^verbatim>\<open>Object.prototype\<close>) and
  \<^verbatim>\<open>default\<close> (of an imported CommonJS module).
\<close>

definition some_currencies :: currencies where
  "some_currencies =
     [''EUR'' \<mapsto> EUR, ''USD'' \<mapsto> USD, ''JPY'' \<mapsto> JPY,
      ''constructor'' \<mapsto> not_a_currency, ''__proto__'' \<mapsto> not_a_currency,
      ''default'' \<mapsto> not_a_currency]"

section \<open>Notions of the specification\<close>

text \<open>
  An amount is outside the inclusive safe-integer envelope \<open>[-(2^53 - 1), 2^53 - 1]\<close>
  when it is not a member of that interval: a finite number below or above it, an
  infinity, or NaN.
\<close>

fun outside_envelope :: "jsnum \<Rightarrow> bool" where
  "outside_envelope (Fin r) = (\<not> (- (2 ^ 53 - 1) \<le> r \<and> r \<le> 2 ^ 53 - 1))"
| "outside_envelope _ = True"

text \<open>
  The decimal representation of an integer number of minor units \<open>a\<close> divided by
  \<open>10 ^ e\<close>: a minus sign for a negative amount, the digits of the integral part and, when
  \<open>e\<close> is not 0, the point and exactly \<open>e\<close> fractional digits (the last \<open>e\<close> digits of
  \<open>\<bar>a\<bar>\<close>, with leading zeros).
\<close>

fun frac_digits :: "nat \<Rightarrow> nat \<Rightarrow> string" where
  "frac_digits 0 n = []"
| "frac_digits (Suc e) n = frac_digits e (n div 10) @ [''0123456789'' ! (n mod 10)]"

definition fixed_digits :: "nat \<Rightarrow> nat \<Rightarrow> string" where
  "fixed_digits n e = digits (n div 10 ^ e) @ (if e = 0 then [] else ''.'' @ frac_digits e n)"

definition decimal :: "int \<Rightarrow> nat \<Rightarrow> string" where
  "decimal a e = (if a < 0 then ''-'' else []) @ fixed_digits (nat \<bar>a\<bar>) e"

section \<open>Rounding to binary64\<close>

subsection \<open>Evaluation on numerals\<close>

lemma floor_rat_numeral [simp]:
  "\<lfloor>numeral a / numeral b :: rat\<rfloor> = numeral a div numeral b"
  using floor_divide_of_int_eq [of "numeral a" "numeral b", where ?'a = rat] by simp

lemma ceiling_rat_numeral [simp]:
  "\<lceil>numeral a / numeral b :: rat\<rceil> = - ((- numeral a) div numeral b)"
  using ceiling_divide_eq_div [of "numeral a" "numeral b", where ?'a = rat] by simp

lemmas round64_eval =
  round64_def quantum_def expo_def ilog2_def bits.simps round_half_even_def Let_def

subsection \<open>The binary exponent\<close>

lemma bits_pos: "0 < n \<Longrightarrow> 0 < bits n"
  by (subst bits.simps) simp

lemma bits_bounds: "0 < n \<Longrightarrow> 2 ^ (bits n - 1) \<le> n \<and> n < 2 ^ bits n"
proof (induction n rule: bits.induct)
  case (1 n)
  show ?case
  proof (cases "n = 1")
    case True
    have "bits 1 = Suc 0"
      by (simp add: bits.simps)
    with True show ?thesis by simp
  next
    case False
    with "1.prems" have h: "0 < n div 2" by simp
    from "1.prems" have b: "bits n = Suc (bits (n div 2))"
      by (subst bits.simps) simp
    from h "1.IH" "1.prems" have ih: "2 ^ (bits (n div 2) - 1) \<le> n div 2" "n div 2 < 2 ^ bits (n div 2)"
      by simp_all
    from bits_pos [OF h] obtain k where k: "bits (n div 2) = Suc k"
      by (cases "bits (n div 2)") simp_all
    from ih k have "2 * 2 ^ k \<le> 2 * (n div 2)" by simp
    then have lo: "(2::int) ^ Suc k \<le> n" by simp
    from ih(2) have "n div 2 + 1 \<le> 2 ^ bits (n div 2)" by simp
    then have "n < 2 * 2 ^ bits (n div 2)" by linarith
    with lo b k show ?thesis by simp
  qed
qed

lemma ilog2_bounds:
  assumes "0 < x"
  shows "2 powi ilog2 x \<le> x \<and> x < 2 powi (ilog2 x + 1)"
proof (cases "1 \<le> x")
  case True
  define n where "n = \<lfloor>x\<rfloor>"
  have n: "0 < n" using True by (simp add: n_def)
  from bits_pos [OF n] obtain k where k: "bits n = Suc k"
    by (cases "bits n") simp_all
  have il: "ilog2 x = int k" using True by (simp add: ilog2_def n_def [symmetric] k)
  from bits_bounds [OF n] k have b: "2 ^ k \<le> n" "n < 2 ^ Suc k" by simp_all
  have "rat_of_int (2 ^ k) \<le> of_int n" using b(1) by (simp only: of_int_le_iff)
  also have "\<dots> \<le> x" by (simp add: n_def)
  finally have lo: "2 ^ k \<le> x" by simp
  have "n + 1 \<le> 2 ^ Suc k" using b(2) by simp
  then have "rat_of_int (n + 1) \<le> of_int (2 ^ Suc k)" by (simp only: of_int_le_iff)
  moreover have "x < of_int (n + 1)" unfolding n_def by linarith
  ultimately have hi: "x < 2 ^ Suc k" by simp
  have "(2::rat) powi (int k + 1) = 2 ^ Suc k"
    by (simp add: power_int_def nat_add_distrib)
  with lo hi il show ?thesis by (simp add: power_int_def)
next
  case False
  define y where "y = 1 / x"
  define n where "n = \<lceil>y\<rceil> - 1"
  from False assms have y1: "1 < y" by (simp add: y_def)
  then have n: "0 < n" unfolding n_def by linarith
  from bits_pos [OF n] obtain k where k: "bits n = Suc k"
    by (cases "bits n") simp_all
  have il: "ilog2 x = - int (Suc k)" using False by (simp add: ilog2_def y_def [symmetric] n_def [symmetric] k)
  from bits_bounds [OF n] k have b: "2 ^ k \<le> n" "n < 2 ^ Suc k" by simp_all
  have "rat_of_int (2 ^ k) \<le> of_int n" using b(1) by (simp only: of_int_le_iff)
  also have "\<dots> < y" unfolding n_def by linarith
  finally have lo: "2 ^ k < y" by simp
  have "n + 1 \<le> 2 ^ Suc k" using b(2) by simp
  then have "rat_of_int (n + 1) \<le> of_int (2 ^ Suc k)" by (simp only: of_int_le_iff)
  moreover have "y \<le> of_int (n + 1)" unfolding n_def by linarith
  ultimately have hi: "y \<le> 2 ^ Suc k" by simp
  have x: "x = 1 / y" by (simp add: y_def)
  have p1: "(2::rat) powi (- int (Suc k)) = 1 / 2 ^ Suc k"
    unfolding power_int_minus power_int_of_nat by (simp add: field_simps)
  have "- int (Suc k) + 1 = - int k" by simp
  then have p2: "(2::rat) powi (- int (Suc k) + 1) = 1 / 2 ^ k"
    by (simp add: power_int_minus field_simps)
  have "1 / 2 ^ Suc k \<le> 1 / y" using hi y1 by (intro divide_left_mono) simp_all
  moreover have "1 / y < 1 / 2 ^ k" using lo y1 by (intro divide_strict_left_mono) (simp_all add: zero_less_mult_iff)
  ultimately have "1 / 2 ^ Suc k \<le> x \<and> x < 1 / 2 ^ k" unfolding x by simp
  then show ?thesis unfolding il p1 p2 by simp
qed

subsection \<open>Nearest integer, ties to even\<close>

lemma rhe_of_int: "round_half_even (of_int n) = n"
  by (simp add: round_half_even_def)

lemma rhe_cases: "round_half_even x = \<lfloor>x\<rfloor> \<or> round_half_even x = \<lfloor>x\<rfloor> + 1"
  by (simp add: round_half_even_def Let_def)

lemma rhe_ge: 
  assumes "of_int k \<le> x" shows "k \<le> round_half_even x"
proof -
  from assms have "k \<le> \<lfloor>x\<rfloor>" by (simp add: le_floor_iff)
  with rhe_cases [of x] show ?thesis by auto
qed

lemma rhe_err: "\<bar>of_int (round_half_even x) - x\<bar> \<le> 1 / 2"
proof -
  define d where "d = x - of_int \<lfloor>x\<rfloor>"
  have d: "0 \<le> d" "d < 1" unfolding d_def by linarith+
  have x: "x = of_int \<lfloor>x\<rfloor> + d" by (simp add: d_def)
  consider "d < 1 / 2" | "1 / 2 < d" | "d = 1 / 2" by linarith
  then show ?thesis
  proof cases
    case 1
    then have "round_half_even x = \<lfloor>x\<rfloor>"
      by (simp add: round_half_even_def Let_def d_def)
    with 1 d show ?thesis unfolding d_def by simp
  next
    case 2
    then have "round_half_even x = \<lfloor>x\<rfloor> + 1"
      by (simp add: round_half_even_def Let_def d_def)
    with 2 d show ?thesis unfolding d_def by simp
  next
    case 3
    from rhe_cases [of x] show ?thesis
    proof
      assume "round_half_even x = \<lfloor>x\<rfloor>"
      with 3 show ?thesis unfolding d_def by simp
    next
      assume "round_half_even x = \<lfloor>x\<rfloor> + 1"
      with 3 show ?thesis unfolding d_def by simp
    qed
  qed
qed

lemma round64_0: "round64 0 = Fin 0"
  by (simp add: round64_def)

lemma pow2_pos: "0 < (2::rat) powi e"
  by simp

lemma pow2_le_iff: "(2::rat) powi a \<le> 2 powi b \<longleftrightarrow> a \<le> b"
proof
  assume h: "(2::rat) powi a \<le> 2 powi b"
  show "a \<le> b"
  proof (rule ccontr)
    assume "\<not> a \<le> b"
    then have "b < a" by simp
    then have "(2::rat) powi b < 2 powi a"
      by (rule power_int_strict_increasing) simp
    with h show False by simp
  qed
next
  assume "a \<le> b"
  then show "(2::rat) powi a \<le> 2 powi b"
    by (rule power_int_increasing) simp
qed

lemma pow2_less_iff: "(2::rat) powi a < 2 powi b \<longleftrightarrow> a < b"
  using pow2_le_iff [of b a] by (simp add: not_le [symmetric])

lemma pow2_add: "(2::rat) powi (a + b) = 2 powi a * 2 powi b"
  by (rule power_int_add) simp

lemma pow2_diff: "(2::rat) powi (a - b) = 2 powi a / 2 powi b"
  by (rule power_int_diff) simp

lemma pow2_nat: "0 \<le> k \<Longrightarrow> (2::rat) powi k = of_int (2 ^ nat k)"
  by (simp add: power_int_def)

lemma round64_unfold:
  "x \<noteq> 0 \<Longrightarrow> round64 x =
     (if 2 powi 1024 \<le> of_int (round_half_even (\<bar>x\<bar> / quantum x)) * quantum x
      then (if 0 < x then PInf else NInf)
      else Fin (sgn x * (of_int (round_half_even (\<bar>x\<bar> / quantum x)) * quantum x)))"
  unfolding round64_def Let_def by (simp only: if_False)

lemma quantum_pos: "0 < quantum x"
  by (simp add: quantum_def)

lemma quantum_le:
  assumes "2 powi (- 1074) \<le> \<bar>x\<bar>"
  shows "quantum x \<le> \<bar>x\<bar>"
proof -
  have pos: "0 < \<bar>x\<bar>"
    by (rule less_le_trans [OF pow2_pos assms])
  show ?thesis
  proof (cases "- 1022 \<le> ilog2 \<bar>x\<bar>")
    case True
    then have "expo x = ilog2 \<bar>x\<bar>" by (simp add: expo_def)
    then have "quantum x \<le> 2 powi ilog2 \<bar>x\<bar>"
      unfolding quantum_def by (simp only: pow2_le_iff)
    also have "\<dots> \<le> \<bar>x\<bar>" using ilog2_bounds [OF pos] by simp
    finally show ?thesis .
  next
    case False
    then have "expo x = - 1022" by (simp add: expo_def)
    then have "quantum x = 2 powi (- 1074)" by (simp only: quantum_def) simp
    with assms show ?thesis by simp
  qed
qed

lemma round64_sign:
  assumes "2 powi (- 1074) \<le> \<bar>x\<bar>"
  shows "round64 x = (if 0 < x then PInf else NInf)
         \<or> (\<exists>y. round64 x = Fin y \<and> (0 < y \<longleftrightarrow> 0 < x) \<and> (y < 0 \<longleftrightarrow> x < 0))"
proof -
  have pos: "0 < \<bar>x\<bar>"
    by (rule less_le_trans [OF pow2_pos assms])
  then have nz: "x \<noteq> 0" by simp
  define y where "y = rat_of_int (round_half_even (\<bar>x\<bar> / quantum x)) * quantum x"
  have "1 \<le> \<bar>x\<bar> / quantum x"
    using quantum_le [OF assms] quantum_pos [of x] by (simp add: field_simps)
  then have "1 \<le> round_half_even (\<bar>x\<bar> / quantum x)" by (intro rhe_ge) simp
  then have y: "0 < y"
    unfolding y_def using quantum_pos [of x] by simp
  show ?thesis
  proof (cases "2 powi 1024 \<le> y")
    case True
    then show ?thesis unfolding round64_unfold [OF nz] y_def [symmetric] by (simp only: if_True) simp
  next
    case False
    then have "round64 x = Fin (sgn x * y)"
      unfolding round64_unfold [OF nz] y_def [symmetric] by (simp only: if_False)
    moreover have "0 < sgn x * y \<longleftrightarrow> 0 < x"
      using y nz by (cases "0 < x") (simp_all add: sgn_if)
    moreover have "sgn x * y < 0 \<longleftrightarrow> x < 0"
      using y nz by (cases "0 < x") (simp_all add: sgn_if)
    ultimately show ?thesis by blast
  qed
qed

subsection \<open>Values that rounding leaves alone\<close>

lemma expo_ge: "- 1022 \<le> expo x"
  by (simp add: expo_def)

lemma round64_exact:
  assumes nz: "x \<noteq> 0" and int: "\<bar>x\<bar> / quantum x = of_int k" and fin: "\<bar>x\<bar> < 2 powi 1024"
  shows "round64 x = Fin x"
proof -
  have m: "round_half_even (\<bar>x\<bar> / quantum x) = k"
    unfolding int by (rule rhe_of_int)
  have y: "rat_of_int k * quantum x = \<bar>x\<bar>"
    using int quantum_pos [of x] by (simp add: field_simps)
  have "sgn x * \<bar>x\<bar> = x" by (simp add: sgn_if)
  with fin show ?thesis
    unfolding round64_unfold [OF nz] m y by (simp only: not_le [symmetric] if_False)
qed

lemma ilog2_less:
  assumes "0 < x" "x < 2 powi k" shows "ilog2 x < k"
proof -
  have "2 powi ilog2 x \<le> x" using ilog2_bounds [OF assms(1)] by simp
  also note assms(2)
  finally show ?thesis by (simp only: pow2_less_iff)
qed

lemma ilog2_ge:
  assumes "0 < x" "2 powi k \<le> x" shows "k \<le> ilog2 x"
proof -
  have "x < 2 powi (ilog2 x + 1)" using ilog2_bounds [OF assms(1)] by simp
  with assms(2) have "(2::rat) powi k < 2 powi (ilog2 x + 1)" by (rule le_less_trans)
  then have "k < ilog2 x + 1" by (simp only: pow2_less_iff)
  then show ?thesis by simp
qed

lemma round64_dyadic:
  assumes x: "x = of_int m * 2 powi k" and m: "\<bar>m\<bar> < 2 ^ 53" and k: "- 1074 \<le> k"
    and fin: "\<bar>x\<bar> < 2 powi 1024"
  shows "round64 x = Fin x"
proof (cases "x = 0")
  case True
  then show ?thesis by (simp add: round64_0)
next
  case False
  then have pos: "0 < \<bar>x\<bar>" by simp
  have ax: "\<bar>x\<bar> = of_int \<bar>m\<bar> * 2 powi k"
    unfolding x by (simp add: abs_mult)
  have "rat_of_int \<bar>m\<bar> < of_int (2 ^ 53)" using m by (simp only: of_int_less_iff)
  then have "rat_of_int \<bar>m\<bar> < 2 powi 53" by simp
  then have "\<bar>x\<bar> < 2 powi 53 * 2 powi k"
    unfolding ax by (intro mult_strict_right_mono pow2_pos)
  then have "\<bar>x\<bar> < 2 powi (53 + k)" by (simp only: pow2_add)
  from ilog2_less [OF pos this] k have e: "expo x - 52 \<le> k"
    by (simp add: expo_def)
  define j where "j = nat (k - (expo x - 52))"
  have "k = (expo x - 52) + int j" using e by (simp add: j_def)
  then have "(2::rat) powi k = 2 powi (expo x - 52) * 2 powi int j"
    by (simp only: pow2_add)
  then have "(2::rat) powi k = quantum x * of_int (2 ^ j)"
    by (simp add: quantum_def)
  then have "\<bar>x\<bar> / quantum x = of_int (\<bar>m\<bar> * 2 ^ j)"
    unfolding ax using quantum_pos [of x] by simp
  from round64_exact [OF False this fin] show ?thesis .
qed

lemma round64_int:
  assumes "\<bar>n\<bar> \<le> 2 ^ 53"
  shows "round64 (of_int n) = Fin (of_int n)"
proof (cases "\<bar>n\<bar> < 2 ^ 53")
  case True
  have "\<bar>rat_of_int n\<bar> < of_int (2 ^ 53)"
    using True by (simp only: of_int_abs [symmetric] of_int_less_iff)
  also have "\<dots> \<le> 2 powi 1024" by simp
  finally have "\<bar>rat_of_int n\<bar> < 2 powi 1024" .
  with True show ?thesis
    by (intro round64_dyadic [where m = n and k = 0]) simp_all
next
  case False
  with assms have "n = 2 ^ 53 \<or> n = - (2 ^ 53)" by linarith
  then show ?thesis
  proof
    assume "n = 2 ^ 53"
    then have "rat_of_int n = of_int 1 * 2 powi 53" by simp
    moreover have "\<bar>rat_of_int n\<bar> < 2 powi 1024" using \<open>n = 2 ^ 53\<close> by simp
    ultimately show ?thesis by (intro round64_dyadic [where m = 1 and k = 53]) simp_all
  next
    assume "n = - (2 ^ 53)"
    then have "rat_of_int n = of_int (- 1) * 2 powi 53" by simp
    moreover have "\<bar>rat_of_int n\<bar> < 2 powi 1024" using \<open>n = - (2 ^ 53)\<close> by simp
    ultimately show ?thesis by (intro round64_dyadic [where m = "- 1" and k = 53]) simp_all
  qed
qed

subsection \<open>The sign of a difference\<close>

lemma round64_grid:
  assumes "round64 x = Fin y"
  shows "\<exists>k. y = of_int k * 2 powi (- 1074)"
proof (cases "x = 0")
  case True
  with assms have "y = of_int 0 * 2 powi (- 1074)" by (simp add: round64_0)
  then show ?thesis by blast
next
  case False
  define m where "m = round_half_even (\<bar>x\<bar> / quantum x)"
  define j where "j = nat (expo x + 1022)"
  have "expo x - 52 = - 1074 + int j" using expo_ge [of x] by (simp add: j_def)
  then have q: "quantum x = 2 powi (- 1074) * of_int (2 ^ j)"
    unfolding quantum_def by (simp only: pow2_add) simp
  from assms have y: "y = sgn x * (of_int m * quantum x)"
    unfolding round64_unfold [OF False] m_def [symmetric] by (simp split: if_splits)
  have "sgn x = of_int (sgn \<lfloor>x\<rfloor>) \<or> sgn x = of_int 1 \<or> sgn x = of_int (- 1)"
    by (simp add: sgn_if)
  then obtain s :: int where s: "sgn x = of_int s"
    by blast
  have "y = of_int (s * m * 2 ^ j) * 2 powi (- 1074)"
    unfolding y q s by simp
  then show ?thesis by blast
qed

lemma binary64_apart:
  assumes "is_binary64 a" "is_binary64 b" "a \<noteq> b"
  shows "2 powi (- 1074) \<le> \<bar>a - b\<bar>"
proof -
  from assms(1) obtain k where k: "a = of_int k * 2 powi (- 1074)"
    unfolding is_binary64_def using round64_grid by blast
  from assms(2) obtain l where l: "b = of_int l * 2 powi (- 1074)"
    unfolding is_binary64_def using round64_grid by blast
  from assms(3) have "k \<noteq> l" unfolding k l by auto
  then have "1 \<le> \<bar>k - l\<bar>" by simp
  then have "rat_of_int 1 \<le> of_int \<bar>k - l\<bar>" by (simp only: of_int_le_iff)
  then have "1 * 2 powi (- 1074) \<le> \<bar>rat_of_int (k - l)\<bar> * 2 powi (- 1074)"
    by (intro mult_right_mono) simp_all
  also have "\<dots> = \<bar>a - b\<bar>"
    unfolding k l by (simp add: abs_mult left_diff_distrib [symmetric] del: power_int_numeral_neg_numeral power_int_minus)
  finally show ?thesis by (simp only: mult_1)
qed

lemma js_sub_sign:
  assumes "is_binary64 a" "is_binary64 b"
  shows "js_gt (js_sub (Fin a) (Fin b)) (Fin 0) = (b < a)
       \<and> js_lt (js_sub (Fin a) (Fin b)) (Fin 0) = (a < b)
       \<and> js_eq (js_sub (Fin a) (Fin b)) (Fin 0) = (a = b)"
proof (cases "a = b")
  case True
  then show ?thesis by (simp add: round64_0 js_gt_def)
next
  case False
  from binary64_apart [OF assms False] round64_sign [of "a - b"]
  consider "round64 (a - b) = (if 0 < a - b then PInf else NInf)"
    | y where "round64 (a - b) = Fin y" "0 < y \<longleftrightarrow> 0 < a - b" "y < 0 \<longleftrightarrow> a - b < 0"
    by blast
  then show ?thesis
  proof cases
    case 1
    with False show ?thesis by (auto simp: js_gt_def)
  next
    case 2
    with False show ?thesis by (auto simp: js_gt_def)
  qed
qed

lemma gt_MAX: "js_gt (Fin r) MAX_SAFE_INTEGER = (2 ^ 53 - 1 < r)"
  by (simp add: js_gt_def MAX_SAFE_INTEGER_def)

lemma lt_MIN: "js_lt (Fin r) MIN_SAFE_INTEGER = (r < - (2 ^ 53 - 1))"
  by (simp add: MIN_SAFE_INTEGER_def)

lemma range_check:
  "x \<noteq> NaN \<Longrightarrow> (js_gt x MAX_SAFE_INTEGER \<or> js_lt x MIN_SAFE_INTEGER) = outside_envelope x"
  by (cases x) (auto simp: js_gt_def MAX_SAFE_INTEGER_def MIN_SAFE_INTEGER_def)

lemma new_Money_cases:
  "new_Money (Fin r) cur =
     (if outside_envelope (Fin r) then Inl (MoneyException ''Unsafe integer amount!'')
      else Inr \<lparr>amount = Fin r, currency = cur\<rparr>)"
  using range_check [of "Fin r"] by (simp add: new_Money_def)

section \<open>Splitting and products\<close>

subsection \<open>Splitting\<close>

lemma split_no_sep:
  assumes "sep \<notin> set t"
  shows "split sep t = [t]"
proof -
  from assms have h: "dropWhile (\<lambda>x. x \<noteq> sep) t = []"
    by (auto simp: dropWhile_eq_Nil_conv)
  show ?thesis by (subst split.simps) (simp only: h list.case)
qed

lemma split_append:
  assumes "sep \<notin> set t"
  shows "split sep (t @ sep # r) = t # split sep r"
proof -
  from assms have "dropWhile (\<lambda>x. x \<noteq> sep) (t @ sep # r) = sep # r"
    by (subst dropWhile_append2) auto
  moreover from assms have "takeWhile (\<lambda>x. x \<noteq> sep) (t @ sep # r) = t"
    by (subst takeWhile_append2) auto
  ultimately show ?thesis by (subst split.simps) simp
qed

lemma split_Nil: "split sep [] = [[]]"
  by (subst split.simps) simp

lemma split_nonempty: "split sep s \<noteq> []"
  by (subst split.simps) (simp split: list.splits)

lemma split_Cons:
  "split sep (x # xs) =
     (if x = sep then [] # split sep xs
      else (case split sep xs of [] \<Rightarrow> [[x]] | t # ts \<Rightarrow> (x # t) # ts))"
proof (cases "x = sep")
  case True
  then show ?thesis by (subst split.simps) simp
next
  case False
  show ?thesis
  proof (cases "dropWhile (\<lambda>x. x \<noteq> sep) xs")
    case Nil
    then have "sep \<notin> set xs" by (auto simp: dropWhile_eq_Nil_conv)
    with False have "split sep xs = [xs]" "split sep (x # xs) = [x # xs]"
      by (simp_all add: split_no_sep)
    with False show ?thesis by simp
  next
    case (Cons y r)
    have a: "split sep xs = takeWhile (\<lambda>x. x \<noteq> sep) xs # split sep r"
      by (subst split.simps) (simp add: Cons)
    have b: "split sep (x # xs) = (x # takeWhile (\<lambda>x. x \<noteq> sep) xs) # split sep r"
      by (subst split.simps) (simp add: False Cons)
    from False show ?thesis by (simp add: a b)
  qed
qed

lemmas split_eval = split_Nil split_Cons amountStr_def currencyStr_def element_string_def

lemma tokens_two:
  assumes "CHR '' '' \<notin> set t1" "CHR '' '' \<notin> set t2"
  shows "amountStr (t1 @ '' '' @ t2) = t1" "currencyStr (t1 @ '' '' @ t2) = t2"
  using assms by (simp_all add: amountStr_def currencyStr_def element_string_def split_append split_no_sep)

lemma tokens_more:
  assumes "CHR '' '' \<notin> set t1" "CHR '' '' \<notin> set t2"
  shows "amountStr (t1 @ '' '' @ t2 @ '' '' @ rest) = t1"
    "currencyStr (t1 @ '' '' @ t2 @ '' '' @ rest) = t2"
  using assms by (simp_all add: amountStr_def currencyStr_def element_string_def split_append)

lemma tokens_one:
  assumes "CHR '' '' \<notin> set text"
  shows "amountStr text = text" "currencyStr text = ''undefined''"
  using assms by (simp_all add: amountStr_def currencyStr_def element_string_def split_no_sep)

subsection \<open>Products\<close>

lemma round64_not_NaN: "round64 x \<noteq> NaN"
  by (simp add: round64_def Let_def)

lemma isNaN_iff: "isNaN x = (x = NaN)"
  by (cases x) simp_all

lemma js_mul_NaN:
  assumes "p \<noteq> 0"
  shows "isNaN (js_mul x (Fin p)) = (x = NaN)"
  using assms by (cases x) (simp_all add: round64_not_NaN signed_inf_def isNaN_iff)

section \<open>The constructor\<close>




text \<open>
  C9: the range comparison is the constructor's only validation. It does not check that the
  amount is an integer: every amount within the range that is not an integer, such as
  \<open>10.5\<close>, is accepted and stored unchanged.
\<close>

theorem new_Money_non_integer:
  assumes "of_int \<lfloor>r\<rfloor> \<noteq> r" and "- (2 ^ 53 - 1) \<le> r" and "r \<le> 2 ^ 53 - 1"
  shows "new_Money (Fin r) cur = Inr \<lparr>amount = Fin r, currency = cur\<rparr>"
  using assms by (simp add: new_Money_def gt_MAX lt_MIN not_less)

theorem new_Money_non_integer_witness:
  "rat_of_int \<lfloor>21 / 2 :: rat\<rfloor> \<noteq> 21 / 2
   \<and> new_Money (Fin (21 / 2)) (Currency EUR) = Inr \<lparr>amount = Fin (21 / 2), currency = Currency EUR\<rparr>"
  using new_Money_non_integer [of "21 / 2" "Currency EUR"] by simp

section \<open>Currency lookup\<close>

text \<open>
  What \<^verbatim>\<open>Currency.parse\<close> does with the value read: none, and the exception quotes the
  code; any value, and that value is wrapped, its properties read as they are.
\<close>

lemma Currency_parse_cases:
  "case table cd of
     Some c \<Rightarrow> Currency_parse table cd = Inr (Currency c)
        \<and> Currency_code (Currency c) = code c \<and> Currency_exponent (Currency c) = exponent c
        \<and> Currency_base (Currency c) = base c
   | None \<Rightarrow> Currency_parse table cd
               = Inl (InvalidCurrencyException (''Invalid currency: '' @ [CHR 0x27] @ cd @ [CHR 0x27]))"
  by (simp add: Currency_parse_def Currency_code_def Currency_exponent_def Currency_base_def
      new_InvalidCurrencyException_def split: option.splits)

lemma some_currencies_eval:
  "some_currencies ''EUR'' = Some EUR" "some_currencies ''USD'' = Some USD"
  "some_currencies ''JPY'' = Some JPY" "some_currencies ''ABC'' = None"
  "some_currencies ''undefined'' = None" "some_currencies ''eur'' = None"
  "some_currencies [] = None"
  "some_currencies ''constructor'' = Some not_a_currency"
  "some_currencies ''__proto__'' = Some not_a_currency"
  "some_currencies ''default'' = Some not_a_currency"
  by (simp_all add: some_currencies_def)


lemma is_binary64_int: "\<bar>n\<bar> \<le> 2 ^ 53 \<Longrightarrow> is_binary64 (of_int n)"
  unfolding is_binary64_def by (rule round64_int)

section \<open>Comparison\<close>

text \<open>
  C1 (as amended): for Money values whose amounts are numbers, \<^verbatim>\<open>compareTo\<close> fails with the
  \<^verbatim>\<open>MoneyException\<close> "Impossible to compare monetary values with different currencies."
  exactly when the currency codes differ. Otherwise it returns the binary64 value nearest
  to the difference of the amounts: positive, negative or zero as the first amount is
  greater than, less than or equal to the second, and the difference itself whenever
  that is an integer of magnitude at most \<open>2^53\<close>.
\<close>

theorem compareTo_difference:
  assumes "amount a = Fin x" and "is_binary64 x" and "amount b = Fin y" and "is_binary64 y"
  shows "if Currency_code (currency a) = Currency_code (currency b)
         then \<exists>d. compareTo a b = Inr d \<and> d = round64 (x - y)
                \<and> js_gt d (Fin 0) = (y < x) \<and> js_lt d (Fin 0) = (x < y) \<and> js_eq d (Fin 0) = (x = y)
                \<and> (of_int \<lfloor>x - y\<rfloor> = x - y \<and> \<bar>x - y\<bar> \<le> 2 ^ 53 \<longrightarrow> d = Fin (x - y))
         else compareTo a b
                = Inl (MoneyException ''Impossible to compare monetary values with different currencies.'')"
proof (cases "Currency_code (currency a) = Currency_code (currency b)")
  case True
  then have c: "compareTo a b = Inr (round64 (x - y))"
    using assms by (simp add: compareTo_def hasSameCurrency_def Currency_equals_def)
  have exact: "round64 (x - y) = Fin (x - y)" if "of_int \<lfloor>x - y\<rfloor> = x - y" "\<bar>x - y\<bar> \<le> 2 ^ 53"
  proof -
    have "rat_of_int \<bar>\<lfloor>x - y\<rfloor>\<bar> = \<bar>x - y\<bar>" by (simp only: of_int_abs that(1))
    also have "\<dots> \<le> of_int (2 ^ 53)" using that(2) by simp
    finally have "\<bar>\<lfloor>x - y\<rfloor>\<bar> \<le> 2 ^ 53" by (simp only: of_int_le_iff)
    from round64_int [OF this] show ?thesis by (simp only: that(1))
  qed
  from js_sub_sign [OF assms(2,4)] c exact True show ?thesis by simp
next
  case False
  then show ?thesis
    by (simp add: compareTo_def hasSameCurrency_def Currency_equals_def)
qed

theorem compareTo_difference_witness:
  "is_binary64 1034 \<and> is_binary64 37599
   \<and> compareTo \<lparr>amount = Fin 1034, currency = Currency EUR\<rparr> \<lparr>amount = Fin 37599, currency = Currency EUR\<rparr>
       = Inr (Fin (- 36565))
   \<and> compareTo \<lparr>amount = Fin 1034, currency = Currency EUR\<rparr> \<lparr>amount = Fin 37599, currency = Currency USD\<rparr>
       = Inl (MoneyException ''Impossible to compare monetary values with different currencies.'')"
proof -
  have a: "is_binary64 1034" using is_binary64_int [of 1034] by simp
  have b: "is_binary64 37599" using is_binary64_int [of 37599] by simp
  from compareTo_difference [of "\<lparr>amount = Fin 1034, currency = Currency EUR\<rparr>" 1034
      "\<lparr>amount = Fin 37599, currency = Currency EUR\<rparr>" 37599, OF _ a _ b]
    compareTo_difference [of "\<lparr>amount = Fin 1034, currency = Currency EUR\<rparr>" 1034
      "\<lparr>amount = Fin 37599, currency = Currency USD\<rparr>" 37599, OF _ a _ b]
    a b
  show ?thesis by (simp add: Currency_code_def EUR_def USD_def)
qed

text \<open>
  The difference of two amounts of the safe-integer envelope need not be a binary64
  value: \<open>(2^53 - 1) - (-2) = 2^53 + 1\<close> is returned as \<open>2^53\<close>.
\<close>

theorem compareTo_inexact:
  "new_Money (Fin 9007199254740991) (Currency EUR)
     = Inr \<lparr>amount = Fin 9007199254740991, currency = Currency EUR\<rparr>
   \<and> new_Money (Fin (- 2)) (Currency EUR) = Inr \<lparr>amount = Fin (- 2), currency = Currency EUR\<rparr>
   \<and> compareTo \<lparr>amount = Fin 9007199254740991, currency = Currency EUR\<rparr>
        \<lparr>amount = Fin (- 2), currency = Currency EUR\<rparr> = Inr (Fin 9007199254740992)
   \<and> (9007199254740991 - (- 2) :: rat) \<noteq> 9007199254740992"
  by (simp add: new_Money_def gt_MAX lt_MIN compareTo_def hasSameCurrency_def Currency_equals_def
      round64_eval)




section \<open>Parsing\<close>

lemma parse_resolved:
  assumes "table (currencyStr text) = Some c"
    and "js_mul (parseFloat (amountStr text)) (js_pow (base c) (exponent c)) = amt"
  shows "parse table text =
           (if isNaN amt then Inl (new_MoneyParseException text)
            else new_Money (Math_trunc amt) (Currency c))"
  using assms
  by (simp add: parse_def Currency_parse_def Currency_base_def Currency_exponent_def)


subsection \<open>Concrete runs\<close>

lemmas parseFloat_eval = parseFloat_def is_white_def is_digit_def digits_val_def digit_val_def Let_def

lemma scale_EUR: "js_pow (base EUR) (exponent EUR) = Fin 100"
  by (simp add: js_pow_def EUR_def round64_eval)

lemma scale_JPY: "js_pow (base JPY) (exponent JPY) = Fin 1"
  by (simp add: js_pow_def JPY_def round64_eval)

lemma parseFloat_10_34: "parseFloat ''10.34'' = Fin (2910451259188183 / 281474976710656)"
proof -
  have "parseFloat ''10.34'' = round64 (1034 / 100)" by (simp add: parseFloat_eval)
  also have "\<dots> = Fin (2910451259188183 / 281474976710656)" by (simp add: round64_eval)
  finally show ?thesis .
qed

lemma parse_10_34_EUR:
  "parse some_currencies ''10.34 EUR'' = Inr \<lparr>amount = Fin 1034, currency = Currency EUR\<rparr>"
proof -
  have t: "currencyStr ''10.34 EUR'' = ''EUR''" "amountStr ''10.34 EUR'' = ''10.34''"
    by (simp_all add: split_eval)
  have m: "js_mul (parseFloat (amountStr ''10.34 EUR'')) (js_pow (base EUR) (exponent EUR)) = Fin 1034"
    unfolding t parseFloat_10_34 scale_EUR by (simp add: round64_eval)
  have c: "some_currencies (currencyStr ''10.34 EUR'') = Some EUR"
    unfolding t by (rule some_currencies_eval)
  show ?thesis
    unfolding parse_resolved [of some_currencies "''10.34 EUR''" EUR, OF c m]
    by (simp add: new_Money_cases)
qed

lemma parse_10_34_EUR_extra:
  "parse some_currencies ''10.34 EUR extra'' = Inr \<lparr>amount = Fin 1034, currency = Currency EUR\<rparr>"
proof -
  have t: "currencyStr ''10.34 EUR extra'' = ''EUR''" "amountStr ''10.34 EUR extra'' = ''10.34''"
    by (simp_all add: split_eval)
  have m: "js_mul (parseFloat (amountStr ''10.34 EUR extra'')) (js_pow (base EUR) (exponent EUR)) = Fin 1034"
    unfolding t parseFloat_10_34 scale_EUR by (simp add: round64_eval)
  have c: "some_currencies (currencyStr ''10.34 EUR extra'') = Some EUR"
    unfolding t by (rule some_currencies_eval)
  show ?thesis
    unfolding parse_resolved [of some_currencies "''10.34 EUR extra''" EUR, OF c m]
    by (simp add: new_Money_cases)
qed




text \<open>
  C10: a text with no space at all is a single piece: the currency piece is missing, the
  lookup (of \<^verbatim>\<open>undefined\<close>) fails before the amount is looked at, and \<^verbatim>\<open>Money.parse\<close> fails
  with \<^verbatim>\<open>InvalidCurrencyException\<close>, never with \<^verbatim>\<open>MoneyParseException\<close>, whatever the text
  (the table having no entry named \<^verbatim>\<open>undefined\<close>).
\<close>

theorem parse_single_token:
  assumes "CHR '' '' \<notin> set text" and "table ''undefined'' = None"
  shows "parse table text
           = Inl (InvalidCurrencyException (''Invalid currency: '' @ [CHR 0x27] @ ''undefined'' @ [CHR 0x27]))"
  using assms
  by (simp add: parse_def tokens_one Currency_parse_def new_InvalidCurrencyException_def)

theorem parse_single_token_witness:
  "CHR '' '' \<notin> set ''10.34'' \<and> some_currencies ''undefined'' = None
   \<and> parse some_currencies ''10.34''
       = Inl (InvalidCurrencyException (''Invalid currency: '' @ [CHR 0x27] @ ''undefined'' @ [CHR 0x27]))
   \<and> parse some_currencies ''garbage''
       = Inl (InvalidCurrencyException (''Invalid currency: '' @ [CHR 0x27] @ ''undefined'' @ [CHR 0x27]))"
  using parse_single_token [of "''10.34''" some_currencies]
    parse_single_token [of "''garbage''" some_currencies]
  by (simp add: some_currencies_def)

text \<open>
  C6 (as amended): \<^verbatim>\<open>Money.parse\<close> cuts the text at every space and reads only the first two
  pieces; whatever follows the second space is ignored. A text \<open>t1 t2 rest\<close> is parsed as
  \<open>t1 t2\<close> is, except that the message of a \<^verbatim>\<open>MoneyParseException\<close> carries the whole
  text.
\<close>

theorem parse_extra_pieces:
  assumes "CHR '' '' \<notin> set t1" and "CHR '' '' \<notin> set t2"
  shows "parse table (t1 @ '' '' @ t2 @ '' '' @ rest) =
           (case parse table (t1 @ '' '' @ t2) of
              Inl (MoneyParseException m) \<Rightarrow>
                Inl (new_MoneyParseException (t1 @ '' '' @ t2 @ '' '' @ rest))
            | r \<Rightarrow> r)"
  unfolding parse_def tokens_two [OF assms] tokens_more [OF assms]
  by (simp add: Let_def new_Money_def new_MoneyParseException_def new_InvalidCurrencyException_def
      Currency_parse_def split: option.splits)

theorem parse_extra_pieces_witness:
  "CHR '' '' \<notin> set ''10.34'' \<and> CHR '' '' \<notin> set ''EUR''
   \<and> parse some_currencies ''10.34 EUR extra'' = parse some_currencies ''10.34 EUR''
   \<and> parse some_currencies ''10.34 EUR'' = Inr \<lparr>amount = Fin 1034, currency = Currency EUR\<rparr>"
  using parse_extra_pieces [of "''10.34''" "''EUR''" some_currencies "''extra''"]
  by (simp add: parse_10_34_EUR)

text \<open>
  The text \<^verbatim>\<open>10.34 EUR extra\<close>, with more than one space, does not fail: it is parsed as
  1034 minor units of EUR.
\<close>

theorem parse_extra_pieces_accepted:
  "parse some_currencies ''10.34 EUR extra'' = Inr \<lparr>amount = Fin 1034, currency = Currency EUR\<rparr>"
  by (rule parse_10_34_EUR_extra)

section \<open>Formatting\<close>

subsection \<open>Digits\<close>

lemma digits_small: "n < 10 \<Longrightarrow> digits n = [''0123456789'' ! n]"
  by (subst digits.simps) simp

lemma digits_large: "10 \<le> n \<Longrightarrow> digits n = digits (n div 10) @ [''0123456789'' ! (n mod 10)]"
  by (subst digits.simps) simp

lemma digits_nonempty: "digits n \<noteq> []"
  by (subst digits.simps) simp

lemma frac_digits_length: "length (frac_digits e n) = e"
  by (induction e arbitrary: n) simp_all

lemma frac_digits_0: "frac_digits e 0 = replicate e CHR ''0''"
  by (induction e) (simp_all add: replicate_append_same)

lemma digits_length_le: "1 \<le> f \<Longrightarrow> length (digits n) \<le> f \<longleftrightarrow> n < 10 ^ f"
proof (induction n arbitrary: f rule: digits.induct)
  case (1 n)
  show ?case
  proof (cases "n < 10")
    case True
    have "(10::nat) ^ 1 \<le> 10 ^ f" using "1.prems" by (intro power_increasing) simp_all
    with True "1.prems" show ?thesis by (simp add: digits_small)
  next
    case False
    then have d: "digits n = digits (n div 10) @ [''0123456789'' ! (n mod 10)]"
      by (simp add: digits_large)
    show ?thesis
    proof (cases f)
      case 0
      with "1.prems" show ?thesis by simp
    next
      case (Suc g)
      show ?thesis
      proof (cases "g = 0")
        case True
        with Suc False show ?thesis by (simp add: d digits_nonempty)
      next
        case g: False
        then have "length (digits (n div 10)) \<le> g \<longleftrightarrow> n div 10 < 10 ^ g"
          using "1.IH" [OF False, of g] by simp
        moreover have "n div 10 < 10 ^ g \<longleftrightarrow> n < 10 * 10 ^ g"
          by (simp add: div_less_iff_less_mult mult.commute)
        ultimately show ?thesis by (simp add: d Suc)
      qed
    qed
  qed
qed

lemma digits_split:
  "10 ^ e \<le> n \<Longrightarrow> digits n = digits (n div 10 ^ e) @ frac_digits e n"
proof (induction e arbitrary: n)
  case 0
  then show ?case by simp
next
  case (Suc e)
  from Suc.prems have "10 * 10 ^ e \<le> n" by simp
  moreover have "(1::nat) \<le> 10 ^ e" by simp
  ultimately have n: "10 \<le> n" by linarith
  from Suc.prems have "10 ^ e \<le> n div 10"
    by (simp add: less_eq_div_iff_mult_less_eq mult.commute)
  from Suc.IH [OF this] have "digits (n div 10) = digits (n div 10 div 10 ^ e) @ frac_digits e (n div 10)" .
  moreover have "n div 10 div 10 ^ e = n div 10 ^ Suc e"
    by (simp add: div_mult2_eq)
  ultimately show ?case by (simp add: digits_large [OF n])
qed

lemma frac_digits_pad:
  "1 \<le> e \<Longrightarrow> n < 10 ^ e \<Longrightarrow>
     frac_digits e n = replicate (e - length (digits n)) CHR ''0'' @ digits n"
proof (induction e arbitrary: n)
  case 0
  then show ?case by simp
next
  case (Suc e)
  show ?case
  proof (cases "n < 10")
    case True
    then show ?thesis by (simp add: digits_small frac_digits_0)
  next
    case False
    then have n: "10 \<le> n" by simp
    with Suc.prems have e: "1 \<le> e" by (cases e) simp_all
    from Suc.prems have "n div 10 < 10 ^ e"
      by (simp add: div_less_iff_less_mult mult.commute)
    from Suc.IH [OF e this] show ?thesis
      by (simp add: digits_large [OF n])
  qed
qed

lemma digits_0: "digits 0 = ''0''"
  by (simp add: digits_small)

lemma format_fixed:
  "(if f \<noteq> 0 then
      let m = (if length (digits n) \<le> f
               then replicate (f + 1 - length (digits n)) CHR ''0'' @ digits n else digits n);
          k = length m
      in take (k - f) m @ ''.'' @ drop (k - f) m
    else digits n) = fixed_digits n f"
proof (cases "f = 0")
  case True
  then show ?thesis by (simp add: fixed_digits_def)
next
  case False
  then have f: "1 \<le> f" by simp
  show ?thesis
  proof (cases "length (digits n) \<le> f")
    case True
    then have n: "n < 10 ^ f" using digits_length_le [OF f] by simp
    from True obtain j where j: "f + 1 - length (digits n) = Suc j" "j = f - length (digits n)"
      by (cases "f + 1 - length (digits n)") auto
    have "frac_digits f n = replicate j CHR ''0'' @ digits n"
      using frac_digits_pad [OF f n] j by simp
    with True False n j show ?thesis
      by (simp add: fixed_digits_def Let_def digits_0)
  next
    case long: False
    then have "10 ^ f \<le> n" using digits_length_le [OF f, of n] by simp
    from digits_split [OF this]
    have d: "digits n = digits (n div 10 ^ f) @ frac_digits f n" .
    have l: "length (digits n) - f = length (digits (n div 10 ^ f))"
      by (subst d) (simp add: frac_digits_length)
    have "take (length (digits n) - f) (digits n) = digits (n div 10 ^ f)"
      unfolding l by (subst d) simp
    moreover have "drop (length (digits n) - f) (digits n) = frac_digits f n"
      unfolding l by (subst d) simp
    ultimately show ?thesis using long False
      by (simp add: fixed_digits_def Let_def)
  qed
qed

lemma toFixed_Fin:
  assumes "f \<le> 100" and "\<bar>r\<bar> < 10 ^ 21"
  shows "toFixed (Fin r) f
           = Inr ((if r < 0 then ''-'' else []) @ fixed_digits (nat \<lfloor>\<bar>r\<bar> * 10 ^ f + 1 / 2\<rfloor>) f)"
proof -
  define n where "n = nat \<lfloor>\<bar>r\<bar> * 10 ^ f + 1 / 2\<rfloor>"
  have m: "(if n = 0 then ''0'' else digits n) = digits n"
    by (simp add: digits_0)
  from assms have a: "\<not> 100 < f" "\<not> 10 ^ 21 \<le> \<bar>r\<bar>" by simp_all
  have "toFixed (Fin r) f =
      Inr ((if r < 0 then ''-'' else []) @
        (if f \<noteq> 0 then
           let m = (if length (digits n) \<le> f
                    then replicate (f + 1 - length (digits n)) CHR ''0'' @ digits n else digits n);
               k = length m
           in take (k - f) m @ ''.'' @ drop (k - f) m
         else digits n))"
    unfolding toFixed_def
    by (simp only: a if_False jsnum.case Let_def n_def [symmetric] m)
  then show ?thesis unfolding format_fixed n_def .
qed

subsection \<open>Division by a power of ten\<close>

lemma pow10_binary64:
  assumes "e \<le> 22"
  shows "round64 (of_nat (10 ^ e)) = Fin (of_nat (10 ^ e))"
proof (rule round64_dyadic [where m = "5 ^ e" and k = "int e"])
  have "rat_of_nat (10 ^ e) = (5 * 2) ^ e" by simp
  also have "\<dots> = 5 ^ e * 2 ^ e" by (rule power_mult_distrib)
  finally show "rat_of_nat (10 ^ e) = rat_of_int (5 ^ e) * 2 powi int e" by simp
  have "(5::int) ^ e \<le> 5 ^ 22" using assms by (intro power_increasing) simp_all
  also have "\<dots> < 2 ^ 53" by simp
  finally show "\<bar>(5::int) ^ e\<bar> < 2 ^ 53" by simp
  show "- 1074 \<le> int e" by simp
  have "(10::rat) ^ e \<le> 10 ^ 22" using assms by (intro power_increasing) simp_all
  also have "\<dots> < 2 powi 1024" by simp
  finally show "\<bar>rat_of_nat (10 ^ e)\<bar> < 2 powi 1024" by simp
qed

lemma js_pow_10: "e \<le> 22 \<Longrightarrow> js_pow (Some 10) (Some e) = Fin (10 ^ e)"
  using pow10_binary64 [of e] by (simp add: js_pow_def)

lemma round64_near:
  assumes lo: "2 powi (- 1022) \<le> \<bar>x\<bar>" and hi: "\<bar>x\<bar> < 2 powi 1023"
  shows "\<exists>y. round64 x = Fin (sgn x * y) \<and> 0 < y \<and> \<bar>y - \<bar>x\<bar>\<bar> \<le> quantum x / 2
           \<and> quantum x \<le> \<bar>x\<bar> * 2 powi (- 52)"
proof -
  have pos: "0 < \<bar>x\<bar>" by (rule less_le_trans [OF pow2_pos lo])
  then have nz: "x \<noteq> 0" by simp
  have "(2::rat) powi (- 1074) \<le> 2 powi (- 1022)" by (simp only: pow2_le_iff)
  then have lo': "2 powi (- 1074) \<le> \<bar>x\<bar>" using lo by (rule order_trans)
  from ilog2_ge [OF pos lo] have ex: "expo x = ilog2 \<bar>x\<bar>" by (simp add: expo_def)
  have "quantum x = 2 powi ilog2 \<bar>x\<bar> * 2 powi (- 52)"
    unfolding quantum_def ex by (simp only: pow2_add [symmetric]) simp
  also have "\<dots> \<le> \<bar>x\<bar> * 2 powi (- 52)"
    using ilog2_bounds [OF pos] by (intro mult_right_mono) simp_all
  finally have q52: "quantum x \<le> \<bar>x\<bar> * 2 powi (- 52)" .
  define y where "y = rat_of_int (round_half_even (\<bar>x\<bar> / quantum x)) * quantum x"
  have qp: "0 < quantum x" by (rule quantum_pos)
  have ql: "quantum x \<le> \<bar>x\<bar>" by (rule quantum_le [OF lo'])
  then have "1 \<le> \<bar>x\<bar> / quantum x" using qp by (simp add: field_simps)
  then have "1 \<le> round_half_even (\<bar>x\<bar> / quantum x)" by (intro rhe_ge) simp
  then have ypos: "0 < y" unfolding y_def using qp by simp
  have "\<bar>rat_of_int (round_half_even (\<bar>x\<bar> / quantum x)) - \<bar>x\<bar> / quantum x\<bar> * quantum x
          \<le> 1 / 2 * quantum x"
    using qp by (intro mult_right_mono rhe_err) simp
  moreover have "\<bar>rat_of_int (round_half_even (\<bar>x\<bar> / quantum x)) - \<bar>x\<bar> / quantum x\<bar> * quantum x
          = \<bar>y - \<bar>x\<bar>\<bar>"
  proof -
    have "y - \<bar>x\<bar> = (rat_of_int (round_half_even (\<bar>x\<bar> / quantum x)) - \<bar>x\<bar> / quantum x) * quantum x"
      unfolding y_def using qp by (simp add: field_simps)
    then show ?thesis using qp by (simp add: abs_mult)
  qed
  ultimately have err: "\<bar>y - \<bar>x\<bar>\<bar> \<le> quantum x / 2" by simp
  then have "y \<le> \<bar>x\<bar> + quantum x / 2" by linarith
  also have "\<dots> < 2 powi 1023 + 2 powi 1023" using hi ql by linarith
  also have "\<dots> = 2 powi 1024" by simp
  finally have "\<not> 2 powi 1024 \<le> y" by simp
  then have "round64 x = Fin (sgn x * y)"
    unfolding round64_unfold [OF nz] y_def [symmetric] by (simp only: if_False)
  with ypos err q52 show ?thesis by blast
qed

lemma div_pow10_near:
  assumes nz: "a \<noteq> 0" and small: "\<bar>a\<bar> < 2 ^ 52" and e: "e \<le> 22"
  shows "\<exists>y. round64 (of_int a / 10 ^ e) = Fin (sgn (of_int a) * y) \<and> 0 < y
           \<and> \<bar>y * 10 ^ e - of_int \<bar>a\<bar>\<bar> < 1 / 2 \<and> y < 10 ^ 21"
proof -
  define x :: rat where "x = of_int a / 10 ^ e"
  have p: "(0::rat) < 10 ^ e" by simp
  have ax: "\<bar>x\<bar> = of_int \<bar>a\<bar> / 10 ^ e" by (simp add: x_def)
  have a1: "(1::rat) \<le> of_int \<bar>a\<bar>"
  proof -
    from nz have "1 \<le> \<bar>a\<bar>" by simp
    then have "rat_of_int 1 \<le> of_int \<bar>a\<bar>" by (simp only: of_int_le_iff)
    then show ?thesis by simp
  qed
  have a52: "rat_of_int \<bar>a\<bar> < 2 ^ 52"
  proof -
    have "rat_of_int \<bar>a\<bar> < of_int (2 ^ 52)" using small by (simp only: of_int_less_iff)
    then show ?thesis by simp
  qed
  have p22: "(10::rat) ^ e \<le> 10 ^ 22" using e by (intro power_increasing) simp_all
  have "(2::rat) powi (- 1022) \<le> 1 / 10 ^ 22" by simp
  also have "\<dots> \<le> 1 / 10 ^ e" using p22 p by (intro divide_left_mono) simp_all
  also have "\<dots> \<le> \<bar>x\<bar>" unfolding ax using a1 p by (intro divide_right_mono) simp_all
  finally have lo: "2 powi (- 1022) \<le> \<bar>x\<bar>" .
  have "\<bar>x\<bar> \<le> of_int \<bar>a\<bar>"
    unfolding ax using a1 by (simp add: field_simps mult_le_cancel_left1 self_le_power)
  also have "\<dots> < 2 powi 1023" using a52 by simp
  finally have hi: "\<bar>x\<bar> < 2 powi 1023" .
  have xa: "\<bar>x\<bar> \<le> of_int \<bar>a\<bar>"
    unfolding ax using a1 by (simp add: field_simps mult_le_cancel_left1 self_le_power)
  from round64_near [OF lo hi] obtain y where y: "round64 x = Fin (sgn x * y)" "0 < y"
    "\<bar>y - \<bar>x\<bar>\<bar> \<le> quantum x / 2" "quantum x \<le> \<bar>x\<bar> * 2 powi (- 52)"
    by blast
  have "sgn ((10::rat) ^ e) = 1" using p by (rule sgn_pos)
  then have sx: "sgn x = sgn (rat_of_int a)" unfolding x_def sgn_divide by simp
  have q: "quantum x * 10 ^ e \<le> of_int \<bar>a\<bar> * 2 powi (- 52)"
  proof -
    have "quantum x * 10 ^ e \<le> \<bar>x\<bar> * 2 powi (- 52) * 10 ^ e"
      using y(4) p by (intro mult_right_mono) simp_all
    also have "\<dots> = of_int \<bar>a\<bar> * 2 powi (- 52)" unfolding ax by simp
    finally show ?thesis .
  qed
  have "of_int \<bar>a\<bar> * (2::rat) powi (- 52) < 2 ^ 52 * 2 powi (- 52)"
    using a52 by (intro mult_strict_right_mono) simp_all
  also have "\<dots> = 1" by simp
  finally have q1: "quantum x * 10 ^ e < 1" using q by simp
  have "\<bar>y * 10 ^ e - of_int \<bar>a\<bar>\<bar> = \<bar>y - \<bar>x\<bar>\<bar> * 10 ^ e"
  proof -
    have "y * 10 ^ e - of_int \<bar>a\<bar> = (y - \<bar>x\<bar>) * 10 ^ e" unfolding ax by (simp add: field_simps)
    then show ?thesis by (simp add: abs_mult)
  qed
  also have "\<dots> \<le> quantum x / 2 * 10 ^ e" using y(3) p by (intro mult_right_mono) simp_all
  also have "\<dots> < 1 / 2" using q1 by simp
  finally have near: "\<bar>y * 10 ^ e - of_int \<bar>a\<bar>\<bar> < 1 / 2" .
  have "quantum x \<le> \<bar>x\<bar>" using y(4)
  proof -
    have "\<bar>x\<bar> * (2::rat) powi (- 52) \<le> \<bar>x\<bar> * 1" by (intro mult_left_mono) simp_all
    with y(4) show ?thesis by simp
  qed
  with y(3) xa have "y \<le> of_int \<bar>a\<bar> + of_int \<bar>a\<bar>" by linarith
  also have "\<dots> < 2 ^ 52 + 2 ^ 52" using a52 by linarith
  also have "\<dots> < 10 ^ 21" by simp
  finally have "y < 10 ^ 21" .
  moreover from y(1) have "round64 x = Fin (sgn (rat_of_int a) * y)" by (simp only: sx)
  then have "round64 (rat_of_int a / 10 ^ e) = Fin (sgn (rat_of_int a) * y)" unfolding x_def .
  ultimately show ?thesis using y(2) near by blast
qed

lemma floor_near:
  assumes "\<bar>z - of_int n\<bar> < 1 / 2"
  shows "\<lfloor>z + 1 / 2\<rfloor> = n"
proof -
  from assms have "of_int n \<le> z + 1 / 2" "z + 1 / 2 < of_int n + 1" by linarith+
  then show ?thesis by (simp add: floor_unique)
qed

subsection \<open>Concrete runs of toString and parse\<close>

lemmas toFixed_eval = toFixed_def digits.simps Let_def

lemma div_115: "js_div (Fin 115) (js_pow (base EUR) (exponent EUR)) = Fin (2589569785738035 / 2251799813685248)"
  unfolding scale_EUR by (simp add: round64_eval)

lemma toFixed_115: "toFixed (Fin (2589569785738035 / 2251799813685248)) 2 = Inr ''1.15''"
  by (simp add: toFixed_eval)

lemma toString_unfold:
  "toString \<lparr>amount = a, currency = Currency c\<rparr> =
     (case toFixed (js_div a (js_pow (base c) (exponent c))) (fraction_digits (exponent c)) of
        Inl e \<Rightarrow> Inl e
      | Inr s \<Rightarrow> Inr (s @ '' '' @ template_string (code c)))"
  by (simp add: toString_def convertAmountToDecimal_def Currency_base_def Currency_exponent_def
      Currency_code_def split: sum.splits)

lemma toString_115: "toString \<lparr>amount = Fin 115, currency = Currency EUR\<rparr> = Inr ''1.15 EUR''"
  unfolding toString_unfold div_115
  by (simp add: EUR_def toFixed_115 fraction_digits_def template_string_def)

lemma parseFloat_1_15: "parseFloat ''1.15'' = Fin (2589569785738035 / 2251799813685248)"
proof -
  have "parseFloat ''1.15'' = round64 (115 / 100)" by (simp add: parseFloat_eval)
  also have "\<dots> = Fin (2589569785738035 / 2251799813685248)" by (simp add: round64_eval)
  finally show ?thesis .
qed

lemma product_1_15:
  "js_mul (Fin (2589569785738035 / 2251799813685248)) (js_pow (base EUR) (exponent EUR))
     = Fin (8092405580431359 / 70368744177664)"
  unfolding scale_EUR by (simp add: round64_eval)

lemma parse_1_15_EUR:
  "parse some_currencies ''1.15 EUR'' = Inr \<lparr>amount = Fin 114, currency = Currency EUR\<rparr>"
proof -
  have t: "currencyStr ''1.15 EUR'' = ''EUR''" "amountStr ''1.15 EUR'' = ''1.15''"
    by (simp_all add: split_eval)
  have m: "js_mul (parseFloat (amountStr ''1.15 EUR'')) (js_pow (base EUR) (exponent EUR))
             = Fin (8092405580431359 / 70368744177664)"
    unfolding t parseFloat_1_15 by (rule product_1_15)
  have c: "some_currencies (currencyStr ''1.15 EUR'') = Some EUR"
    unfolding t by (rule some_currencies_eval)
  show ?thesis
    unfolding parse_resolved [of some_currencies "''1.15 EUR''" EUR, OF c m]
    by (simp add: new_Money_cases)
qed

section \<open>Printing and the round trip\<close>

lemma toFixed_quotient:
  assumes small: "\<bar>a\<bar> < 2 ^ 52" and e: "e \<le> 22"
  shows "toFixed (js_div (Fin (of_int a)) (Fin (10 ^ e))) e = Inr (decimal a e)"
proof (cases "a = 0")
  case True
  have "toFixed (Fin 0) e = Inr (fixed_digits 0 e)"
    using toFixed_Fin [of e 0] e by simp
  with True show ?thesis by (simp add: round64_0 decimal_def)
next
  case False
  from div_pow10_near [OF False small e] obtain y where
    y: "round64 (of_int a / 10 ^ e) = Fin (sgn (of_int a) * y)" "0 < y"
      "\<bar>y * 10 ^ e - of_int \<bar>a\<bar>\<bar> < 1 / 2" "y < 10 ^ 21"
    by blast
  define r where "r = sgn (rat_of_int a) * y"
  have ar: "\<bar>r\<bar> = y" using y(2) False by (simp add: r_def abs_mult)
  have neg: "r < 0 \<longleftrightarrow> a < 0"
    using y(2) False by (cases "0 < a") (simp_all add: r_def sgn_if)
  have d: "js_div (Fin (of_int a)) (Fin (10 ^ e)) = Fin r"
    using y(1) by (simp add: r_def)
  have n: "\<lfloor>\<bar>r\<bar> * 10 ^ e + 1 / 2\<rfloor> = \<bar>a\<bar>"
    unfolding ar by (rule floor_near [OF y(3)])
  have lt: "\<bar>r\<bar> < 10 ^ 21" using y(4) ar by simp
  have le: "e \<le> 100" using e by simp
  from toFixed_Fin [OF le lt]
  have "toFixed (Fin r) e = Inr ((if r < 0 then ''-'' else []) @ fixed_digits (nat \<bar>a\<bar>) e)"
    by (simp only: n)
  then show ?thesis unfolding d decimal_def neg .
qed

text \<open>
  C3 (as amended): for a currency with base 10 and exponent \<open>e\<close> up to 22, and an integer
  amount \<open>a\<close> of magnitude below \<open>2^52\<close>, \<^verbatim>\<open>toString\<close> returns the decimal representation
  of \<open>a\<close> divided by \<open>10 ^ e\<close> with exactly \<open>e\<close> fractional digits, a minus sign ahead of
  the digits of a negative amount and no sign otherwise, then a single space and the
  currency code (the text \<^verbatim>\<open>undefined\<close> if the currency has none): 1034 of EUR gives
  \<^verbatim>\<open>10.34 EUR\<close>, -500 of USD gives \<^verbatim>\<open>-5.00 USD\<close>.
\<close>

theorem toString_decimal:
  assumes "base c = Some 10" and "exponent c = Some e" and "e \<le> 22" and "\<bar>a\<bar> < 2 ^ 52"
  shows "toString \<lparr>amount = Fin (of_int a), currency = Currency c\<rparr>
           = Inr (decimal a e @ '' '' @ template_string (code c))"
proof -
  have f: "fraction_digits (Some e) = e" by (simp add: fraction_digits_def)
  show ?thesis
    unfolding toString_unfold assms(1,2) js_pow_10 [OF assms(3)] f
      toFixed_quotient [OF assms(4,3)]
    by simp
qed

lemma frac_digits_numeral:
  "frac_digits (numeral k) n = frac_digits (pred_numeral k) (n div 10) @ [''0123456789'' ! (n mod 10)]"
  by (simp only: numeral_eq_Suc [of k] frac_digits.simps)

lemmas decimal_eval = decimal_def fixed_digits_def digits.simps frac_digits_numeral

theorem toString_decimal_witness:
  "base EUR = Some 10 \<and> exponent EUR = Some 2 \<and> (2::nat) \<le> 22 \<and> \<bar>1034 :: int\<bar> < 2 ^ 52
   \<and> toString \<lparr>amount = Fin 1034, currency = Currency EUR\<rparr> = Inr ''10.34 EUR''
   \<and> toString \<lparr>amount = Fin (- 500), currency = Currency USD\<rparr> = Inr ''-5.00 USD''"
  using toString_decimal [of EUR 2 1034] toString_decimal [of USD 2 "- 500"]
  by (simp add: EUR_def USD_def decimal_eval template_string_def)

text \<open>
  Above that magnitude the quotient is not always the binary64 value nearest to the right
  decimal: 8000000000000001 of EUR, an amount of the safe-integer envelope, is printed
  with 02 for its last two digits.
\<close>

lemma div_large:
  "js_div (Fin 8000000000000001) (js_pow (base EUR) (exponent EUR)) = Fin (5120000000000001 / 64)"
  unfolding scale_EUR by (simp add: round64_eval)

lemma toFixed_large: "toFixed (Fin (5120000000000001 / 64)) 2 = Inr ''80000000000000.02''"
  by (simp add: toFixed_eval)

theorem toString_loses_precision:
  "new_Money (Fin 8000000000000001) (Currency EUR)
     = Inr \<lparr>amount = Fin 8000000000000001, currency = Currency EUR\<rparr>
   \<and> toString \<lparr>amount = Fin 8000000000000001, currency = Currency EUR\<rparr>
     = Inr ''80000000000000.02 EUR''
   \<and> decimal 8000000000000001 2 = ''80000000000000.01''"
  unfolding toString_unfold div_large
  by (simp add: EUR_def toFixed_large new_Money_cases decimal_eval fraction_digits_def
      template_string_def)

lemma equals_114_115:
  "equals \<lparr>amount = Fin 114, currency = Currency EUR\<rparr> \<lparr>amount = Fin 115, currency = Currency EUR\<rparr>
     = Inr False"
  by (simp add: equals_def compareTo_def hasSameCurrency_def Currency_equals_def round64_eval)

text \<open>
  C4: the round trip \<^verbatim>\<open>Money.parse(Money(a, c).toString()).equals(Money(a, c))\<close> fails for
  115 of EUR: it is printed as \<^verbatim>\<open>1.15 EUR\<close>, which is parsed as 114, because the binary64
  product \<^verbatim>\<open>1.15 * 100\<close> is just below 115 and is truncated.
\<close>

theorem round_trip_1_15:
  "new_Money (Fin 115) (Currency EUR) = Inr \<lparr>amount = Fin 115, currency = Currency EUR\<rparr>
   \<and> toString \<lparr>amount = Fin 115, currency = Currency EUR\<rparr> = Inr ''1.15 EUR''
   \<and> parse some_currencies ''1.15 EUR'' = Inr \<lparr>amount = Fin 114, currency = Currency EUR\<rparr>
   \<and> equals \<lparr>amount = Fin 114, currency = Currency EUR\<rparr>
         \<lparr>amount = Fin 115, currency = Currency EUR\<rparr> = Inr False"
  by (simp add: toString_115 parse_1_15_EUR equals_114_115 new_Money_cases)

text \<open>The round trip of the specification's own example, 1034 of EUR, holds.\<close>

lemma div_1034:
  "js_div (Fin 1034) (js_pow (base EUR) (exponent EUR)) = Fin (2910451259188183 / 281474976710656)"
  unfolding scale_EUR by (simp add: round64_eval)

lemma toFixed_1034: "toFixed (Fin (2910451259188183 / 281474976710656)) 2 = Inr ''10.34''"
  by (simp add: toFixed_eval)

lemma round_trip_10_34:
  "parse some_currencies ''10.34 EUR'' = Inr \<lparr>amount = Fin 1034, currency = Currency EUR\<rparr>
   \<and> toString \<lparr>amount = Fin 1034, currency = Currency EUR\<rparr> = Inr ''10.34 EUR''"
  unfolding toString_unfold div_1034
  by (simp add: parse_10_34_EUR EUR_def toFixed_1034 fraction_digits_def template_string_def)

end
